theory Spec2Isabelle
  imports Main "HOL-Library.Word" "HOL-Library.Signed_Division"
begin

section \<open>The embeddings agent of clicky-chats: a store-backed job queue\<close>

text \<open>
  The source is the package \<^verbatim>\<open>embeddings\<close>: the constructor \<^verbatim>\<open>newAgent\<close>, the two loops
  of \<^verbatim>\<open>(*agent).Start\<close>, one polling cycle \<^verbatim>\<open>(*agent).run\<close> and the executor call
  \<^verbatim>\<open>makeEmbeddingsRequest\<close>. The relational store is a pair of tables, a transaction is a
  function on the store that is undone when it fails, and everything the environment
  decides (a failing SQL statement, the answer of the HTTP executor, the clock, which
  branch of a \<^verbatim>\<open>select\<close> is taken) is an explicit argument.
\<close>

subsection \<open>Rows and the store\<close>

text \<open>
  \<^verbatim>\<open>db.CreateEmbeddingRequest\<close>: the fields the agent reads or writes. \<^verbatim>\<open>claimed_by\<close> is a
  nullable column, \<open>None\<close> is SQL \<^verbatim>\<open>NULL\<close>. \<open>Payload\<close> stands for the request body.
\<close>

record request =
  ID :: string
  CreatedAt :: int
  ClaimedBy :: "string option"
  Done :: bool
  ModelAPI :: string
  Payload :: string

text \<open>
  \<^verbatim>\<open>db.CreateEmbeddingResponse\<close>: the fields \<^verbatim>\<open>makeEmbeddingsRequest\<close> assigns, the creation
  time and the body that \<^verbatim>\<open>FromPublic\<close> fills in.
\<close>

record response =
  RequestID :: string
  StatusCode :: int
  Error :: "string option"
  RespDone :: bool
  RespCreatedAt :: int
  Body :: string

record store =
  requests :: "request list"
  responses :: "response list"

subsection \<open>Errors\<close>

text \<open>
  \<open>ErrRecordNotFound\<close> is \<^verbatim>\<open>gorm.ErrRecordNotFound\<close>; \<open>StoreFault\<close> is any other error of the
  store; \<open>Errorf\<close> is an error made by \<^verbatim>\<open>fmt.Errorf\<close> without \<^verbatim>\<open>%w\<close>; \<open>Wrap\<close> is
  \<^verbatim>\<open>fmt.Errorf("...: %w", err)\<close>; \<open>CallError\<close> is an error of \<^verbatim>\<open>json.Marshal\<close> or
  \<^verbatim>\<open>http.NewRequestWithContext\<close>; \<open>NilPointer\<close> is the panic of a method call on a nil
  pointer.
\<close>

datatype err =
    ErrRecordNotFound
  | StoreFault string
  | Errorf string
  | Wrap string err
  | CallError string
  | NilPointer

text \<open>\<^verbatim>\<open>errors.Is\<close>: the error itself or one it wraps.\<close>

fun errors_Is :: "err \<Rightarrow> err \<Rightarrow> bool" where
  "errors_Is (Wrap m e) target = (Wrap m e = target \<or> errors_Is e target)"
| "errors_Is e target = (e = target)"

subsection \<open>Transactions\<close>

text \<open>
  What the store can do wrong during one transaction: \<^verbatim>\<open>Begin\<close> fails, the first or the
  second statement of the body fails, \<^verbatim>\<open>Commit\<close> fails. Each carries the text of the error.
\<close>

record tx_faults =
  fault_begin :: "string option"
  fault_first :: "string option"
  fault_second :: "string option"
  fault_commit :: "string option"

definition no_faults :: tx_faults where
  "no_faults = \<lparr>fault_begin = None, fault_first = None, fault_second = None, fault_commit = None\<rparr>"

text \<open>
  \<^verbatim>\<open>(*gorm.DB).Transaction(fc)\<close>: begin, run \<open>fc\<close> on the store, roll back when \<open>fc\<close>
  returns an error, commit otherwise; a failed commit leaves the store as it was.
\<close>

definition Transaction ::
  "tx_faults \<Rightarrow> (store \<Rightarrow> err + ('a \<times> store)) \<Rightarrow> store \<Rightarrow> (err + 'a) \<times> store" where
  "Transaction f fc s =
     (case fault_begin f of
        Some m \<Rightarrow> (Inl (StoreFault m), s)
      | None \<Rightarrow>
          (case fc s of
             Inl e \<Rightarrow> (Inl e, s)
           | Inr (v, s') \<Rightarrow>
               (case fault_commit f of
                  Some m \<Rightarrow> (Inl (StoreFault m), s)
                | None \<Rightarrow> (Inr v, s'))))"

subsection \<open>The claim transaction of \<^verbatim>\<open>run\<close>\<close>

text \<open>
  The condition of the query:
  \<^verbatim>\<open>Where("claimed_by IS NULL").Or("claimed_by = ? AND done = false", a.id)\<close>.
\<close>

definition claimable :: "string \<Rightarrow> request \<Rightarrow> bool" where
  "claimable owner r = (ClaimedBy r = None \<or> (ClaimedBy r = Some owner \<and> Done r = False))"

text \<open>
  \<^verbatim>\<open>Order("created_at desc")\<close> with the limit of one row that \<^verbatim>\<open>First\<close> adds: the row with
  the greatest creation time. Among rows of equal creation time the query text leaves the
  choice to the store; here the earliest in table order is taken, and no theorem below
  depends on that choice.
\<close>

fun newest :: "request list \<Rightarrow> request option" where
  "newest [] = None"
| "newest (r # rs) =
     (case newest rs of
        None \<Rightarrow> Some r
      | Some b \<Rightarrow> if CreatedAt r < CreatedAt b then Some b else Some r)"

definition First :: "string \<Rightarrow> string option \<Rightarrow> store \<Rightarrow> err + request" where
  "First owner fault s =
     (case fault of
        Some m \<Rightarrow> Inl (StoreFault m)
      | None \<Rightarrow>
          (case newest (filter (claimable owner) (requests s)) of
             None \<Rightarrow> Inl ErrRecordNotFound
           | Some r \<Rightarrow> Inr r))"

text \<open>\<^verbatim>\<open>tx.Where("id = ?", embedreq.ID).Updates(map{"claimed_by": a.id})\<close>.\<close>

definition Updates_claimed_by :: "string \<Rightarrow> string \<Rightarrow> string option \<Rightarrow> store \<Rightarrow> err + store" where
  "Updates_claimed_by rid owner fault s =
     (case fault of
        Some m \<Rightarrow> Inl (StoreFault m)
      | None \<Rightarrow>
          Inr (s\<lparr>requests :=
                 map (\<lambda>r. if ID r = rid then r\<lparr>ClaimedBy := Some owner\<rparr> else r) (requests s)\<rparr>))"

text \<open>The body of the first transaction of \<^verbatim>\<open>run\<close>: select, then update by id.\<close>

definition claim_body :: "string \<Rightarrow> tx_faults \<Rightarrow> store \<Rightarrow> err + (request \<times> store)" where
  "claim_body owner f s =
     (case First owner (fault_first f) s of
        Inl e \<Rightarrow> Inl e
      | Inr embedreq \<Rightarrow>
          (case Updates_claimed_by (ID embedreq) owner (fault_second f) s of
             Inl e \<Rightarrow> Inl e
           | Inr s' \<Rightarrow> Inr (embedreq, s')))"

definition claim :: "string \<Rightarrow> tx_faults \<Rightarrow> store \<Rightarrow> (err + request) \<times> store" where
  "claim owner f s = Transaction f (claim_body owner f) s"

subsection \<open>The environment of one polling cycle\<close>

text \<open>The outbound call: \<^verbatim>\<open>POST\<close> to \<open>req_url\<close> with these headers and this body.\<close>

record http_request =
  req_url :: string
  req_headers :: "(string \<times> string) list"
  req_body :: string

text \<open>
  What \<^verbatim>\<open>cclient.SendRequest(client, req, resp)\<close> hands back: the status code, the error
  (its text, \<open>None\<close> for \<^verbatim>\<open>nil\<close>) and the object it decoded into \<^verbatim>\<open>resp\<close>. The function
  is in package \<^verbatim>\<open>pkg/client\<close>; here its answer is an input.
\<close>

record send_result =
  code :: int
  send_err :: "string option"
  decoded :: string

text \<open>
  Everything outside the agent that one call of \<^verbatim>\<open>run\<close> consults: the faults of the two
  transactions, \<^verbatim>\<open>json.Marshal(er.ToPublic())\<close>, whether \<^verbatim>\<open>http.NewRequestWithContext\<close>
  accepts the URL, the executor, \<^verbatim>\<open>FromPublic\<close> (the body it stores and its error, which
  is only logged) and the clock at the time the response row is created.
\<close>

record run_env =
  claim_faults :: tx_faults
  marshal :: "request \<Rightarrow> err + string"
  new_request :: "string \<Rightarrow> err option"
  send :: "http_request \<Rightarrow> send_result"
  from_public :: "string \<Rightarrow> string \<times> string option"
  persist_faults :: tx_faults
  now :: int

subsection \<open>Effects\<close>

text \<open>
  The observable actions of the agent, in the order they happen: error-level log lines
  (debug lines are left out), the outbound call, \<^verbatim>\<open>trigger.Ready(id)\<close>, a call of \<^verbatim>\<open>run\<close>
  with what it returned, the operations on a \<^verbatim>\<open>time.Timer\<close>, the branch a blocking
  \<^verbatim>\<open>select\<close> took, and a call of \<^verbatim>\<open>db.DeleteExpired\<close> with its arguments.
\<close>

type_synonym Duration = "64 word"

datatype wake = CtxDone | TimerC | Triggered

datatype kind = CreateEmbeddingRequest | CreateEmbeddingResponse

datatype effect =
    LogError string
  | HttpPost http_request
  | Ready string
  | RunCycle "err option"
  | NewTimer Duration
  | TimerStop bool
  | TimerDrain
  | TimerReset Duration
  | Wait wake
  | DeleteExpiredCall int "kind list"

subsection \<open>Configuration and construction\<close>

type_synonym logger = "(string \<times> string) list"

datatype trigger = NewNoop | Provided string

record config =
  Logger :: "logger option"
  PollingInterval :: Duration
  RetentionPeriod :: Duration
  EmbeddingsURL :: string
  APIKey :: string
  AgentID :: string
  Trigger :: "trigger option"

text \<open>
  The struct \<^verbatim>\<open>agent\<close>. Its \<^verbatim>\<open>client\<close> is always \<^verbatim>\<open>http.DefaultClient\<close> and its \<^verbatim>\<open>db\<close> is the
  store, which the functions below take as an argument. The field \<^verbatim>\<open>id\<close> is \<open>id_agent\<close>.
  The logger is a pointer, \<open>None\<close> is \<^verbatim>\<open>nil\<close>; the agents that \<^verbatim>\<open>Start\<close> builds have one, and
  the log lines of the loops are effects of the functions below.
\<close>

record agent =
  logger :: "logger option"
  pollingInterval :: Duration
  requestRetention :: Duration
  id_agent :: string
  apiKey :: string
  url :: string
  trigger :: trigger

text \<open>\<^verbatim>\<open>time.Second\<close> and \<^verbatim>\<open>5 * time.Minute\<close>, in nanoseconds.\<close>

definition minPollingInterval :: Duration where
  "minPollingInterval = 1000000000"

definition minRequestRetention :: Duration where
  "minRequestRetention = 5 * 60000000000"

text \<open>
  \<^verbatim>\<open>newAgent\<close>. The comparisons are those of the signed type \<^verbatim>\<open>time.Duration\<close>. With no
  trigger the constructor calls \<^verbatim>\<open>cfg.Logger.Warn\<close>, which panics on a nil logger.
\<close>

definition newAgent :: "config \<Rightarrow> err + agent" where
  "newAgent cfg =
     (if sint (PollingInterval cfg) < sint minPollingInterval
      then Inl (Errorf ''[embeddings] polling interval must be at least 1s'')
      else if sint (RetentionPeriod cfg) < sint minRequestRetention
      then Inl (Errorf ''[embeddings] request retention must be at least 5m0s'')
      else if Trigger cfg = None \<and> Logger cfg = None
      then Inl NilPointer
      else Inr \<lparr>logger = Logger cfg,
                pollingInterval = PollingInterval cfg,
                requestRetention = RetentionPeriod cfg,
                id_agent = AgentID cfg,
                apiKey = APIKey cfg,
                url = EmbeddingsURL cfg,
                trigger = (case Trigger cfg of Some t \<Rightarrow> t | None \<Rightarrow> NewNoop)\<rparr>)"

text \<open>
  The package function \<^verbatim>\<open>Start\<close>: default the logger, construct, and only then call
  \<^verbatim>\<open>a.Start(ctx, wg)\<close>, which launches the two loops. \<open>Inl\<close> is the early return before
  any loop exists; \<open>Inr a\<close> is the agent whose loops are launched.
\<close>

definition default_logger :: logger where
  "default_logger = [(''agent'', ''embeddings'')]"

definition Start :: "config \<Rightarrow> err + agent" where
  "Start cfg =
     newAgent (case Logger cfg of None \<Rightarrow> cfg\<lparr>Logger := Some default_logger\<rparr> | Some l \<Rightarrow> cfg)"

subsection \<open>The executor call\<close>

text \<open>The request that \<^verbatim>\<open>makeEmbeddingsRequest\<close> builds: URL, headers, body.\<close>

definition build_request :: "string \<Rightarrow> string \<Rightarrow> string \<Rightarrow> http_request" where
  "build_request u key b =
     \<lparr>req_url = u,
      req_headers =
        [(''Content-Type'', ''application/json''), (''Accept'', ''application/json'')] @
        (if key \<noteq> [] then [(''Authorization'', ''Bearer '' @ key)] else []),
      req_body = b\<rparr>"

definition new_response :: response where
  "new_response = \<lparr>RequestID = [], StatusCode = 0, Error = None, RespDone = False,
                    RespCreatedAt = 0, Body = []\<rparr>"

text \<open>
  \<^verbatim>\<open>makeEmbeddingsRequest\<close>. The two early returns come before the call; after the call the
  function always returns a response row, with the error of the call written into it.
\<close>

definition makeEmbeddingsRequest ::
  "run_env \<Rightarrow> string \<Rightarrow> string \<Rightarrow> request \<Rightarrow> (err + response) \<times> effect list" where
  "makeEmbeddingsRequest env u key er =
     (case marshal env er of
        Inl e \<Rightarrow> (Inl e, [])
      | Inr b \<Rightarrow>
          (case new_request env u of
             Some e \<Rightarrow> (Inl e, [])
           | None \<Rightarrow>
               (let req = build_request u key b;
                    sr = send env req;
                    fp = from_public env (decoded sr);
                    embedresp0 = new_response\<lparr>Body := fst fp\<rparr>;
                    embedresp1 = (case send_err sr of
                                    Some m \<Rightarrow> embedresp0\<lparr>Error := Some m\<rparr>
                                  | None \<Rightarrow> embedresp0)
                in (Inr (embedresp1\<lparr>StatusCode := code sr, RequestID := ID er, RespDone := True\<rparr>),
                    [HttpPost req] @
                    (case snd fp of Some m \<Rightarrow> [LogError ''Failed to create embeddings''] | None \<Rightarrow> []) @
                    (case send_err sr of Some m \<Rightarrow> [LogError ''Failed to create embeddings''] | None \<Rightarrow> [])))))"

subsection \<open>The completion transaction of \<^verbatim>\<open>run\<close>\<close>

text \<open>
  Modelled from the spec: \<^verbatim>\<open>db.Create\<close> of package \<^verbatim>\<open>pkg/db\<close>, which is not part of the
  sources at hand. Section 4.1 (Complete): "insert the response row"; section 3: a row
  carries its creation time. The row is appended with the clock's time as creation time.
\<close>

definition Create :: "int \<Rightarrow> string option \<Rightarrow> response \<Rightarrow> store \<Rightarrow> err + store" where
  "Create t fault p s =
     (case fault of
        Some m \<Rightarrow> Inl (StoreFault m)
      | None \<Rightarrow> Inr (s\<lparr>responses := responses s @ [p\<lparr>RespCreatedAt := t\<rparr>]\<rparr>))"

text \<open>\<^verbatim>\<open>tx.Model(embedreq).Where("id = ?", embeddingsID).Update("done", true)\<close>.\<close>

definition Update_done :: "string \<Rightarrow> string option \<Rightarrow> store \<Rightarrow> err + store" where
  "Update_done rid fault s =
     (case fault of
        Some m \<Rightarrow> Inl (StoreFault m)
      | None \<Rightarrow>
          Inr (s\<lparr>requests := map (\<lambda>r. if ID r = rid then r\<lparr>Done := True\<rparr> else r) (requests s)\<rparr>))"

definition complete_body ::
  "string \<Rightarrow> response \<Rightarrow> int \<Rightarrow> tx_faults \<Rightarrow> store \<Rightarrow> err + (unit \<times> store)" where
  "complete_body embeddingsID embedresp t f s =
     (case Create t (fault_first f) embedresp s of
        Inl e \<Rightarrow> Inl e
      | Inr s1 \<Rightarrow>
          (case Update_done embeddingsID (fault_second f) s1 of
             Inl e \<Rightarrow> Inl e
           | Inr s2 \<Rightarrow> Inr ((), s2)))"

definition complete ::
  "string \<Rightarrow> response \<Rightarrow> int \<Rightarrow> tx_faults \<Rightarrow> store \<Rightarrow> (err + unit) \<times> store" where
  "complete embeddingsID embedresp t f s =
     Transaction f (complete_body embeddingsID embedresp t f) s"

subsection \<open>One polling cycle\<close>

record run_result =
  ret :: "err option"
  after :: store
  effects :: "effect list"

text \<open>The endpoint of the call: the request's own \<^verbatim>\<open>ModelAPI\<close>, or the agent's URL.\<close>

definition endpoint :: "agent \<Rightarrow> request \<Rightarrow> string" where
  "endpoint a embedreq = (let u = ModelAPI embedreq in if u = [] then url a else u)"

text \<open>
  \<^verbatim>\<open>(*agent).run\<close>: claim, call the executor, persist, announce. A failed completion
  transaction is logged and the function still calls \<^verbatim>\<open>Ready\<close> and returns \<^verbatim>\<open>nil\<close>.
\<close>

definition run :: "agent \<Rightarrow> run_env \<Rightarrow> store \<Rightarrow> run_result" where
  "run a env s =
     (case claim (id_agent a) (claim_faults env) s of
        (Inl e, s0) \<Rightarrow>
          \<lparr>ret = Some (if \<not> errors_Is e ErrRecordNotFound
                        then Wrap ''failed to get embeddings request'' e else e),
           after = s0, effects = []\<rparr>
      | (Inr embedreq, s1) \<Rightarrow>
          (case makeEmbeddingsRequest env (endpoint a embedreq) (apiKey a) embedreq of
             (Inl e, fx) \<Rightarrow>
               \<lparr>ret = Some (Wrap ''failed to make embeddings request'' e),
                after = s1, effects = fx\<rparr>
           | (Inr embedresp, fx) \<Rightarrow>
               (case complete (ID embedreq) embedresp (now env) (persist_faults env) s1 of
                  (Inl e, s2) \<Rightarrow>
                    \<lparr>ret = None, after = s2,
                     effects = fx @ [LogError ''Failed to create embeddings response'',
                                     Ready (ID embedreq)]\<rparr>
                | (Inr u, s2) \<Rightarrow>
                    \<lparr>ret = None, after = s2, effects = fx @ [Ready (ID embedreq)]\<rparr>)))"

section \<open>The two loops of \<^verbatim>\<open>(*agent).Start\<close>\<close>

subsection \<open>A \<^verbatim>\<open>time.Timer\<close>\<close>

text \<open>
  The state of a timer as the loops can observe it: \<open>active\<close> while it counts down (then
  \<^verbatim>\<open>Stop\<close> returns true), \<open>pending\<close> while a value sits in its channel \<^verbatim>\<open>C\<close>, and the
  duration it was last armed with.
\<close>

record timer =
  active :: bool
  pending :: bool
  period :: Duration

definition timer_new :: "Duration \<Rightarrow> timer" where
  "timer_new d = \<lparr>active = True, pending = False, period = d\<rparr>"

text \<open>The timer runs out: it stops counting and puts a value into its channel.\<close>

definition timer_expire :: "timer \<Rightarrow> timer" where
  "timer_expire t = (if active t then t\<lparr>active := False, pending := True\<rparr> else t)"

definition timer_stop :: "timer \<Rightarrow> bool \<times> timer" where
  "timer_stop t = (active t, t\<lparr>active := False\<rparr>)"

text \<open>\<^verbatim>\<open>select { case <-timer.C: default: }\<close>: take the value if there is one.\<close>

definition timer_drain :: "timer \<Rightarrow> timer" where
  "timer_drain t = t\<lparr>pending := False\<rparr>"

definition timer_reset :: "Duration \<Rightarrow> timer \<Rightarrow> timer" where
  "timer_reset d t = t\<lparr>active := True, period := d\<rparr>"

text \<open>The branch \<^verbatim>\<open>case <-timer.C\<close> of a blocking select: the timer has run out and its
  value is taken.\<close>

definition timer_receive :: "timer \<Rightarrow> timer" where
  "timer_receive t = (timer_expire t)\<lparr>pending := False\<rparr>"

text \<open>\<^verbatim>\<open>if !timer.Stop() { select { case <-timer.C: default: } }\<close>.\<close>

definition stop_and_drain :: "timer \<Rightarrow> timer \<times> effect list" where
  "stop_and_drain t =
     (case timer_stop t of
        (stopped, t1) \<Rightarrow>
          if \<not> stopped then (timer_drain t1, [TimerStop False, TimerDrain])
          else (t1, [TimerStop True]))"

text \<open>
  A loop that is cut off after finitely many iterations: whether it is still running,
  the timer, the store and what it did so far.
\<close>

record loop_state =
  running :: bool
  timer_of :: timer
  store_of :: store
  trace :: "effect list"

subsection \<open>The embeddings runner\<close>

text \<open>
  What the environment decides in one iteration: everything \<^verbatim>\<open>run\<close> consults, whether the
  timer runs out before the loop next calls \<^verbatim>\<open>timer.Stop\<close>, and the branch of the select
  (consulted only when \<^verbatim>\<open>run\<close> returned an error).
\<close>

record poll_tick =
  cycle_env :: run_env
  expired :: bool
  wake :: wake

text \<open>
  One iteration of the first goroutine. The select is inside \<^verbatim>\<open>if err != nil\<close>: it is
  reached only when \<^verbatim>\<open>run\<close> returned an error.
\<close>

definition poll_iteration :: "agent \<Rightarrow> poll_tick \<Rightarrow> timer \<Rightarrow> store \<Rightarrow> loop_state" where
  "poll_iteration a k t s =
     (let r = run a (cycle_env k) s;
          t1 = (if expired k then timer_expire t else t);
          again = (\<lambda>t2 fx.
             (case stop_and_drain t2 of
                (t3, sx) \<Rightarrow>
                  \<lparr>running = True, timer_of = timer_reset (pollingInterval a) t3,
                   store_of = after r,
                   trace = [RunCycle (ret r)] @ effects r @ fx @ sx @
                           [TimerReset (pollingInterval a)]\<rparr>))
      in case ret r of
           None \<Rightarrow> again t1 []
         | Some e \<Rightarrow>
             (let lx = (if \<not> errors_Is e ErrRecordNotFound
                        then [LogError ''failed embeddings iteration''] else [])
              in case wake k of
                   CtxDone \<Rightarrow>
                     (case stop_and_drain t1 of
                        (t3, sx) \<Rightarrow>
                          \<lparr>running = False, timer_of = t3, store_of = after r,
                           trace = [RunCycle (ret r)] @ effects r @ lx @ [Wait CtxDone] @ sx\<rparr>)
                 | TimerC \<Rightarrow> again (timer_receive t1) (lx @ [Wait TimerC])
                 | Triggered \<Rightarrow> again t1 (lx @ [Wait Triggered])))"

fun poll_loop :: "agent \<Rightarrow> poll_tick list \<Rightarrow> timer \<Rightarrow> store \<Rightarrow> loop_state" where
  "poll_loop a [] t s = \<lparr>running = True, timer_of = t, store_of = s, trace = []\<rparr>"
| "poll_loop a (k # ks) t s =
     (let i = poll_iteration a k t s
      in if running i
         then (let l = poll_loop a ks (timer_of i) (store_of i)
               in l\<lparr>trace := trace i @ trace l\<rparr>)
         else i)"

text \<open>The goroutine: \<^verbatim>\<open>timer := time.NewTimer(a.pollingInterval)\<close>, then the loop.\<close>

definition poll_job :: "agent \<Rightarrow> poll_tick list \<Rightarrow> store \<Rightarrow> loop_state" where
  "poll_job a ks s =
     (let l = poll_loop a ks (timer_new (pollingInterval a)) s
      in l\<lparr>trace := NewTimer (pollingInterval a) # trace l\<rparr>)"

subsection \<open>The cleanup job\<close>

text \<open>
  Modelled from the spec: \<^verbatim>\<open>db.DeleteExpired\<close> of package \<^verbatim>\<open>pkg/db\<close>, which is not part of
  the sources at hand. Section 4.1: it "deletes all rows of the given kinds whose creation
  time is before \<open>cutoffTime\<close>. Best-effort, non-transactional across kinds is acceptable;
  partial progress on failure must not corrupt remaining data". The kinds are handled in
  the order given. A failure is \<open>Some (n, m)\<close>: the error text \<open>m\<close>, after the deletions of
  the first \<open>n\<close> kinds have taken effect (\<open>n = 0\<close> when the whole call is rolled back).
\<close>

fun delete_kind :: "int \<Rightarrow> kind \<Rightarrow> store \<Rightarrow> store" where
  "delete_kind cutoff CreateEmbeddingRequest s =
     s\<lparr>requests := filter (\<lambda>r. \<not> CreatedAt r < cutoff) (requests s)\<rparr>"
| "delete_kind cutoff CreateEmbeddingResponse s =
     s\<lparr>responses := filter (\<lambda>p. \<not> RespCreatedAt p < cutoff) (responses s)\<rparr>"

definition DeleteExpired ::
  "int \<Rightarrow> kind list \<Rightarrow> (nat \<times> string) option \<Rightarrow> store \<Rightarrow> err option \<times> store" where
  "DeleteExpired cutoff kinds failure s =
     (case failure of
        None \<Rightarrow> (None, fold (delete_kind cutoff) kinds s)
      | Some (n, m) \<Rightarrow> (Some (StoreFault m), fold (delete_kind cutoff) (take n kinds) s))"

text \<open>Go's \<^verbatim>\<open>/\<close> on \<^verbatim>\<open>int64\<close>: the quotient truncated towards zero.\<close>

definition go_div :: "Duration \<Rightarrow> Duration \<Rightarrow> Duration" where
  "go_div x y = word_of_int (sint x sdiv sint y)"

definition cleanupInterval :: "agent \<Rightarrow> Duration" where
  "cleanupInterval a = go_div (requestRetention a) 2"

definition jobObjects :: "kind list" where
  "jobObjects = [CreateEmbeddingRequest, CreateEmbeddingResponse]"

text \<open>\<^verbatim>\<open>time.Now().Add(-a.requestRetention)\<close>, with instants counted in nanoseconds.\<close>

definition expiration :: "agent \<Rightarrow> int \<Rightarrow> int" where
  "expiration a clock = clock + sint (- requestRetention a)"

text \<open>
  What the environment decides in one iteration of the cleanup job: the clock, the
  outcome of the deletion, whether the timer ran out before a \<^verbatim>\<open>timer.Stop\<close>, and whether
  the select took \<^verbatim>\<open>ctx.Done()\<close> (otherwise it took \<^verbatim>\<open>timer.C\<close>).
\<close>

record cleanup_tick =
  clock :: int
  delete_failure :: "(nat \<times> string) option"
  ran_out :: bool
  cancelled :: bool

definition cleanup_iteration :: "agent \<Rightarrow> cleanup_tick \<Rightarrow> timer \<Rightarrow> store \<Rightarrow> loop_state" where
  "cleanup_iteration a k t s =
     (let cutoff = expiration a (clock k);
          d = DeleteExpired cutoff jobObjects (delete_failure k) s;
          lx = (case fst d of
                  Some e \<Rightarrow> [LogError ''failed to delete expired embeddings requests/responses'']
                | None \<Rightarrow> []);
          t1 = (if ran_out k then timer_expire t else t)
      in if cancelled k
         then (case stop_and_drain t1 of
                 (t3, sx) \<Rightarrow>
                   \<lparr>running = False, timer_of = t3, store_of = snd d,
                    trace = [DeleteExpiredCall cutoff jobObjects] @ lx @ [Wait CtxDone] @ sx\<rparr>)
         else \<lparr>running = True,
               timer_of = timer_reset (cleanupInterval a) (timer_receive t1),
               store_of = snd d,
               trace = [DeleteExpiredCall cutoff jobObjects] @ lx @
                       [Wait TimerC, TimerReset (cleanupInterval a)]\<rparr>)"

fun cleanup_loop :: "agent \<Rightarrow> cleanup_tick list \<Rightarrow> timer \<Rightarrow> store \<Rightarrow> loop_state" where
  "cleanup_loop a [] t s = \<lparr>running = True, timer_of = t, store_of = s, trace = []\<rparr>"
| "cleanup_loop a (k # ks) t s =
     (let i = cleanup_iteration a k t s
      in if running i
         then (let l = cleanup_loop a ks (timer_of i) (store_of i)
               in l\<lparr>trace := trace i @ trace l\<rparr>)
         else i)"

definition cleanup_job :: "agent \<Rightarrow> cleanup_tick list \<Rightarrow> store \<Rightarrow> loop_state" where
  "cleanup_job a ks s =
     (let l = cleanup_loop a ks (timer_new (cleanupInterval a)) s
      in l\<lparr>trace := NewTimer (cleanupInterval a) # trace l\<rparr>)"

subsection \<open>Reading a trace\<close>

fun is_timer_arm :: "effect \<Rightarrow> bool" where
  "is_timer_arm (NewTimer d) = True"
| "is_timer_arm (TimerReset d) = True"
| "is_timer_arm e = False"

fun is_delete_call :: "effect \<Rightarrow> bool" where
  "is_delete_call (DeleteExpiredCall c ks) = True"
| "is_delete_call e = False"

fun is_wait :: "effect \<Rightarrow> bool" where
  "is_wait (Wait w) = True"
| "is_wait e = False"

text \<open>The iterations the cleanup job performs on a list of ticks: up to and including
  the first one whose select takes \<^verbatim>\<open>ctx.Done()\<close>.\<close>

fun performed :: "cleanup_tick list \<Rightarrow> cleanup_tick list" where
  "performed [] = []"
| "performed (k # ks) = (if cancelled k then [k] else k # performed ks)"

text \<open>
  The reading of "after every cycle the loop is idle before it attempts the next claim":
  in a trace, every call of \<^verbatim>\<open>run\<close> but the first comes after a blocking select that
  followed the previous call. The flag says whether such a wait has been seen since the
  last call.
\<close>

fun waits_between_cycles :: "bool \<Rightarrow> effect list \<Rightarrow> bool" where
  "waits_between_cycles w [] = True"
| "waits_between_cycles w (RunCycle r # es) = (w \<and> waits_between_cycles False es)"
| "waits_between_cycles w (Wait k # es) = waits_between_cycles True es"
| "waits_between_cycles w (e # es) = waits_between_cycles w es"

text \<open>
  The weaker reading: every call of \<^verbatim>\<open>run\<close> that follows a call which returned an error
  comes after a blocking select. The flag says whether a wait is owed.
\<close>

fun waits_after_errors :: "bool \<Rightarrow> effect list \<Rightarrow> bool" where
  "waits_after_errors owed [] = True"
| "waits_after_errors owed (RunCycle r # es) = (\<not> owed \<and> waits_after_errors (r \<noteq> None) es)"
| "waits_after_errors owed (Wait k # es) = waits_after_errors False es"
| "waits_after_errors owed (e # es) = waits_after_errors owed es"

fun is_cycle :: "effect \<Rightarrow> bool" where
  "is_cycle (RunCycle r) = True"
| "is_cycle e = False"

section \<open>Reachable stores\<close>


text \<open>
  The stores reachable from \<open>s0\<close>. The steps are the transactions of the agents, in any
  interleaving and with any behaviour of the store: the claim transaction of any owner;
  the completion transaction for a response that \<^verbatim>\<open>makeEmbeddingsRequest\<close> built for a
  request \<open>er\<close>, at a clock time that is not before the creation time of the rows under
  that id; the deletion of the cleanup job, \<^verbatim>\<open>DeleteExpired\<close> on the two kinds. One more
  step is modelled from the spec, since the API layer is not part of the sources at hand
  (section 3: a request is "created by the API layer on request intake"): the intake of
  a request that is not done.
\<close>

inductive reachable :: "store \<Rightarrow> store \<Rightarrow> bool" for s0 :: store where
  initial: "reachable s0 s0"
| enqueued:
    "reachable s0 s \<Longrightarrow> \<not> Done r \<Longrightarrow> reachable s0 (s\<lparr>requests := requests s @ [r]\<rparr>)"
| claimed:
    "reachable s0 s \<Longrightarrow> claim owner f s = (res, s') \<Longrightarrow> reachable s0 s'"
| completed:
    "reachable s0 s \<Longrightarrow> fst (makeEmbeddingsRequest env u key er) = Inr p \<Longrightarrow>
     \<forall>r\<in>set (requests s). ID r = ID er \<longrightarrow> CreatedAt r \<le> t \<Longrightarrow>
     complete (ID er) p t f s = (res, s') \<Longrightarrow> reachable s0 s'"
| cleaned:
    "reachable s0 s \<Longrightarrow> DeleteExpired cutoff jobObjects failure s = (e, s') \<Longrightarrow>
     reachable s0 s'"

section \<open>Example data\<close>

text \<open>
  Two queued requests, the second one newer and carrying its own endpoint, an agent
  \<open>A\<close> built from a valid configuration, and an environment in which nothing fails.
\<close>

definition r_old :: request where
  "r_old = \<lparr>ID = ''r1'', CreatedAt = 10, ClaimedBy = None, Done = False,
            ModelAPI = [], Payload = ''p1''\<rparr>"

definition r_new :: request where
  "r_new = \<lparr>ID = ''r2'', CreatedAt = 20, ClaimedBy = None, Done = False,
            ModelAPI = ''http://model'', Payload = ''p2''\<rparr>"

definition store2 :: store where
  "store2 = \<lparr>requests = [r_old, r_new], responses = []\<rparr>"

text \<open>The older request, held by owner \<open>A\<close> and not done, next to the newer unclaimed one.\<close>

definition r_held :: request where
  "r_held = r_old\<lparr>ClaimedBy := Some ''A''\<rparr>"

definition store_held :: store where
  "store_held = \<lparr>requests = [r_held, r_new], responses = []\<rparr>"

definition cfg_ok :: config where
  "cfg_ok = \<lparr>Logger = None, PollingInterval = 1000000000, RetentionPeriod = 600000000000,
             EmbeddingsURL = ''http://embed'', APIKey = ''k'', AgentID = ''A'', Trigger = None\<rparr>"

text \<open>
  An environment in which nothing fails (the executor answers 200), and one in which the
  executor call fails with a network error.
\<close>

definition env_ok :: run_env where
  "env_ok = \<lparr>claim_faults = no_faults,
             marshal = (\<lambda>r. Inr (Payload r)),
             new_request = (\<lambda>u. None),
             send = (\<lambda>q. \<lparr>code = 200, send_err = None, decoded = ''vec''\<rparr>),
             from_public = (\<lambda>d. (d, None)),
             persist_faults = no_faults,
             now = 30\<rparr>"

definition env_neterr :: run_env where
  "env_neterr =
     env_ok\<lparr>send := (\<lambda>q. \<lparr>code = 500, send_err = Some ''connection refused'', decoded = []\<rparr>)\<rparr>"

text \<open>An environment in which the commit of the completion transaction fails.\<close>

definition env_commit_fails :: run_env where
  "env_commit_fails =
     env_ok\<lparr>persist_faults := no_faults\<lparr>fault_commit := Some ''commit failed''\<rparr>\<rparr>"

text \<open>
  The response the executor's answer 200 gives for the newer request, and the store after
  \<open>A\<close> has claimed that request.
\<close>

definition resp_ok :: response where
  "resp_ok = \<lparr>RequestID = ''r2'', StatusCode = 200, Error = None, RespDone = True,
              RespCreatedAt = 0, Body = ''vec''\<rparr>"

definition store_claimed :: store where
  "store_claimed = \<lparr>requests = [r_old, r_new\<lparr>ClaimedBy := Some ''A''\<rparr>], responses = []\<rparr>"

definition store_done :: store where
  "store_done = \<lparr>requests = [r_old, r_new\<lparr>ClaimedBy := Some ''A'', Done := True\<rparr>],
                 responses = [resp_ok\<lparr>RespCreatedAt := 30\<rparr>]\<rparr>"

definition agent_A :: agent where
  "agent_A = \<lparr>logger = Some default_logger, pollingInterval = 1000000000,
              requestRetention = 600000000000, id_agent = ''A'', apiKey = ''k'',
              url = ''http://embed'', trigger = NewNoop\<rparr>"

text \<open>Ticks for the examples.\<close>

definition tick_ok :: poll_tick where
  "tick_ok = \<lparr>cycle_env = env_ok, expired = False, wake = TimerC\<rparr>"

definition tick_cancel :: poll_tick where
  "tick_cancel = \<lparr>cycle_env = env_ok, expired = True, wake = CtxDone\<rparr>"

definition sweep :: cleanup_tick where
  "sweep = \<lparr>clock = 600000000015, delete_failure = None, ran_out = False, cancelled = False\<rparr>"

definition sweep_fails :: cleanup_tick where
  "sweep_fails = \<lparr>clock = 900000000015, delete_failure = Some (0, ''database is locked''),
                  ran_out = False, cancelled = False\<rparr>"

definition sweep_last :: cleanup_tick where
  "sweep_last = \<lparr>clock = 1200000000015, delete_failure = None, ran_out = True, cancelled = True\<rparr>"

text \<open>The equations that evaluate the model on the examples.\<close>

lemmas cycle_defs =
  run_def claim_def complete_def Transaction_def claim_body_def complete_body_def First_def
  Updates_claimed_by_def Create_def Update_done_def makeEmbeddingsRequest_def build_request_def
  new_response_def endpoint_def claimable_def no_faults_def Let_def

lemmas example_defs =
  r_old_def r_new_def r_held_def store2_def store_held_def env_ok_def env_neterr_def
  env_commit_fails_def agent_A_def default_logger_def resp_ok_def store_claimed_def
  store_done_def

lemmas loop_defs =
  cleanup_job_def cleanup_iteration_def DeleteExpired_def jobObjects_def expiration_def
  cleanupInterval_def go_div_def stop_and_drain_def timer_new_def timer_expire_def
  timer_stop_def timer_drain_def timer_reset_def timer_receive_def poll_job_def
  poll_iteration_def signed_divide_int_def

section \<open>The claim transaction\<close>

subsection \<open>Properties of the selection\<close>

lemma newest_None: "newest rs = None \<longleftrightarrow> rs = []"
  by (induction rs) (auto split: option.splits)

lemma newest_mem: "newest rs = Some r \<Longrightarrow> r \<in> set rs"
  by (induction rs arbitrary: r) (auto split: option.splits if_splits)

lemma newest_max: "newest rs = Some r \<Longrightarrow> x \<in> set rs \<Longrightarrow> CreatedAt x \<le> CreatedAt r"
proof (induction rs arbitrary: r)
  case Nil
  then show ?case by simp
next
  case (Cons a rs)
  show ?case
  proof (cases "newest rs")
    case None
    then have "rs = []" by (simp add: newest_None)
    with Cons.prems None show ?thesis by simp
  next
    case (Some b)
    with Cons show ?thesis
      by (fastforce split: if_splits)
  qed
qed

subsection \<open>What the transaction returns and writes\<close>

lemma claim_Inr_iff:
  "claim owner f s = (Inr er, s') \<longleftrightarrow>
     fault_begin f = None \<and> fault_first f = None \<and> fault_second f = None \<and>
     fault_commit f = None \<and>
     newest (filter (claimable owner) (requests s)) = Some er \<and>
     s' = s\<lparr>requests :=
              map (\<lambda>r. if ID r = ID er then r\<lparr>ClaimedBy := Some owner\<rparr> else r) (requests s)\<rparr>"
  by (auto simp: claim_def Transaction_def claim_body_def First_def Updates_claimed_by_def
      split: option.splits sum.splits prod.splits)

lemma claim_Inl_unchanged: "claim owner f s = (Inl e, s') \<Longrightarrow> s' = s"
  by (auto simp: claim_def Transaction_def split: option.splits sum.splits prod.splits)

lemma claim_none_available:
  assumes "fault_begin f = None" and "fault_first f = None"
    and none: "\<forall>x\<in>set (requests s). \<not> claimable owner x"
  shows "claim owner f s = (Inl ErrRecordNotFound, s)"
proof -
  from none have "filter (claimable owner) (requests s) = []"
    by (simp add: filter_empty_conv)
  with assms(1,2) show ?thesis
    by (simp add: claim_def Transaction_def claim_body_def First_def)
qed

lemma distinct_ID_eq:
  "distinct (map ID rs) \<Longrightarrow> x \<in> set rs \<Longrightarrow> y \<in> set rs \<Longrightarrow> ID x = ID y \<longleftrightarrow> x = y"
  by (auto simp: distinct_map dest: inj_onD)

text \<open>
  Claim C1. For every store, owner and behaviour of the store during the transaction:
  when the claim transaction succeeds, the returned record is a row of the table that
  satisfies the selection condition (claim-owner unset, or claim-owner equal to the
  caller and not done) and no row satisfying the condition has a later creation time;
  the store after the transaction is the store before it with the claim-owner of the
  rows under the returned id set to the caller, which under a unique id is that one row.
  When the transaction fails the store is unchanged. With no store fault and at least one
  matching row it succeeds; with no matching row (and \<^verbatim>\<open>Begin\<close> and the select working) it
  fails with the record-not-found error and the store is unchanged.
\<close>

theorem claim_transaction:
  "(\<forall>er s'. claim owner f s = (Inr er, s') \<longrightarrow>
       er \<in> set (requests s) \<and> claimable owner er \<and>
       (\<forall>x\<in>set (requests s). claimable owner x \<longrightarrow> CreatedAt x \<le> CreatedAt er) \<and>
       s' = s\<lparr>requests :=
                map (\<lambda>r. if ID r = ID er then r\<lparr>ClaimedBy := Some owner\<rparr> else r) (requests s)\<rparr> \<and>
       (distinct (map ID (requests s)) \<longrightarrow>
          requests s' =
            map (\<lambda>r. if r = er then r\<lparr>ClaimedBy := Some owner\<rparr> else r) (requests s))) \<and>
   (\<forall>e s'. claim owner f s = (Inl e, s') \<longrightarrow> s' = s) \<and>
   (f = no_faults \<longrightarrow> (\<exists>x\<in>set (requests s). claimable owner x) \<longrightarrow>
      (\<exists>er s'. claim owner f s = (Inr er, s'))) \<and>
   (fault_begin f = None \<longrightarrow> fault_first f = None \<longrightarrow>
      (\<forall>x\<in>set (requests s). \<not> claimable owner x) \<longrightarrow>
      claim owner f s = (Inl ErrRecordNotFound, s))"
proof (intro conjI allI impI)
  fix er s'
  assume c: "claim owner f s = (Inr er, s')"
  then have n: "newest (filter (claimable owner) (requests s)) = Some er"
    and s': "s' = s\<lparr>requests :=
              map (\<lambda>r. if ID r = ID er then r\<lparr>ClaimedBy := Some owner\<rparr> else r) (requests s)\<rparr>"
    by (simp_all add: claim_Inr_iff)
  from newest_mem [OF n] show mem: "er \<in> set (requests s)" and "claimable owner er"
    by simp_all
  show "\<forall>x\<in>set (requests s). claimable owner x \<longrightarrow> CreatedAt x \<le> CreatedAt er"
    using newest_max [OF n] by simp
  show "s' = s\<lparr>requests :=
              map (\<lambda>r. if ID r = ID er then r\<lparr>ClaimedBy := Some owner\<rparr> else r) (requests s)\<rparr>"
    by (fact s')
  assume d: "distinct (map ID (requests s))"
  have "map (\<lambda>r. if ID r = ID er then r\<lparr>ClaimedBy := Some owner\<rparr> else r) (requests s) =
        map (\<lambda>r. if r = er then r\<lparr>ClaimedBy := Some owner\<rparr> else r) (requests s)"
    by (rule map_cong [OF refl]) (simp add: distinct_ID_eq [OF d _ mem])
  with s' show "requests s' =
      map (\<lambda>r. if r = er then r\<lparr>ClaimedBy := Some owner\<rparr> else r) (requests s)"
    by simp
next
  fix e s'
  assume "claim owner f s = (Inl e, s')"
  then show "s' = s" by (rule claim_Inl_unchanged)
next
  assume f: "f = no_faults" and ex: "\<exists>x\<in>set (requests s). claimable owner x"
  from ex have "filter (claimable owner) (requests s) \<noteq> []"
    by (simp add: filter_empty_conv)
  then obtain er where "newest (filter (claimable owner) (requests s)) = Some er"
    using newest_None [of "filter (claimable owner) (requests s)"]
    by (cases "newest (filter (claimable owner) (requests s))") auto
  with f show "\<exists>er s'. claim owner f s = (Inr er, s')"
    by (simp add: claim_Inr_iff no_faults_def)
next
  assume "fault_begin f = None" "fault_first f = None"
    "\<forall>x\<in>set (requests s). \<not> claimable owner x"
  then show "claim owner f s = (Inl ErrRecordNotFound, s)"
    by (rule claim_none_available)
qed

lemma claim_store2:
  "claim ''A'' no_faults store2 =
     (Inr r_new, \<lparr>requests = [r_old, r_new\<lparr>ClaimedBy := Some ''A''\<rparr>], responses = []\<rparr>)"
  by (simp add: claim_def Transaction_def claim_body_def First_def Updates_claimed_by_def
      no_faults_def store2_def r_old_def r_new_def claimable_def)

theorem claim_transaction_witness:
  "claim ''A'' no_faults store2 =
     (Inr r_new, \<lparr>requests = [r_old, r_new\<lparr>ClaimedBy := Some ''A''\<rparr>], responses = []\<rparr>) \<and>
   distinct (map ID (requests store2)) \<and>
   r_new \<in> set (requests store2) \<and> claimable ''A'' r_new \<and>
   claimable ''A'' r_old \<and> CreatedAt r_old \<le> CreatedAt r_new \<and>
   claim ''B'' no_faults \<lparr>requests = [r_held], responses = []\<rparr> =
     (Inl ErrRecordNotFound, \<lparr>requests = [r_held], responses = []\<rparr>)"
  using claim_transaction [of "''A''" no_faults store2]
    claim_transaction [of "''B''" no_faults "\<lparr>requests = [r_held], responses = []\<rparr>"]
    claim_store2
  by (simp add: store2_def r_old_def r_new_def r_held_def claimable_def no_faults_def)

subsection \<open>Claim recovery\<close>

text \<open>
  Claim C4. A record whose claim-owner is \<open>X\<close> and whose completion flag is false satisfies
  the selection condition for \<open>X\<close> and not for a different owner \<open>Y\<close>; hence, in a table
  with unique ids, a claim transaction by \<open>Y\<close> (whatever it returns) leaves every such
  record as it is, at its place in the table.
\<close>

theorem claim_recovery:
  assumes "X \<noteq> Y" and "ClaimedBy r = Some X" and "\<not> Done r"
  shows "claimable X r \<and> \<not> claimable Y r \<and>
         (\<forall>f s res s'. distinct (map ID (requests s)) \<longrightarrow> claim Y f s = (res, s') \<longrightarrow>
            length (requests s') = length (requests s) \<and>
            (\<forall>i<length (requests s). requests s ! i = r \<longrightarrow> requests s' ! i = r))"
proof (intro conjI allI impI)
  show cx: "claimable X r" using assms by (simp add: claimable_def)
  show cy: "\<not> claimable Y r" using assms by (simp add: claimable_def)
  fix f s res s'
  assume d: "distinct (map ID (requests s))" and c: "claim Y f s = (res, s')"
  show "length (requests s') = length (requests s)"
    using c by (cases res) (auto simp: claim_Inr_iff dest: claim_Inl_unchanged)
  fix i assume i: "i < length (requests s)" and ri: "requests s ! i = r"
  show "requests s' ! i = r"
  proof (cases res)
    case (Inl e)
    with c have "s' = s" by (auto dest: claim_Inl_unchanged)
    with ri show ?thesis by simp
  next
    case (Inr er)
    with c have n: "newest (filter (claimable Y) (requests s)) = Some er"
      and s': "requests s' =
         map (\<lambda>r. if ID r = ID er then r\<lparr>ClaimedBy := Some Y\<rparr> else r) (requests s)"
      by (simp_all add: claim_Inr_iff)
    from newest_mem [OF n] have er: "er \<in> set (requests s)" "claimable Y er" by simp_all
    from i ri have rm: "r \<in> set (requests s)" by auto
    from er cy have "r \<noteq> er" by auto
    with distinct_ID_eq [OF d rm er(1)] have "ID r \<noteq> ID er" by simp
    with s' i ri show ?thesis by simp
  qed
qed

lemma claim_B_store_held:
  "claim ''B'' no_faults store_held =
     (Inr r_new, \<lparr>requests = [r_held, r_new\<lparr>ClaimedBy := Some ''B''\<rparr>], responses = []\<rparr>)"
  by (simp add: claim_def Transaction_def claim_body_def First_def Updates_claimed_by_def
      no_faults_def store_held_def r_held_def r_old_def r_new_def claimable_def)

theorem claim_recovery_witness:
  "''A'' \<noteq> ''B'' \<and> ClaimedBy r_held = Some ''A'' \<and> \<not> Done r_held \<and>
   claimable ''A'' r_held \<and> \<not> claimable ''B'' r_held \<and>
   distinct (map ID (requests store_held)) \<and>
   requests store_held ! 0 = r_held \<and>
   claim ''B'' no_faults store_held =
     (Inr r_new, \<lparr>requests = [r_held, r_new\<lparr>ClaimedBy := Some ''B''\<rparr>], responses = []\<rparr>) \<and>
   requests (snd (claim ''B'' no_faults store_held)) ! 0 = r_held"
  using claim_recovery [of "''A''" "''B''" r_held] claim_B_store_held
  by (simp add: store_held_def r_held_def r_old_def r_new_def claimable_def)

section \<open>Construction\<close>

lemma sint_mins:
  "sint minPollingInterval = 1000000000" "sint minRequestRetention = 300000000000"
  by (simp_all add: minPollingInterval_def minRequestRetention_def)

text \<open>
  Claim C7. Construction through \<^verbatim>\<open>Start\<close> fails if and only if the polling interval is
  below one second (\<open>10\<^sup>9\<close> ns) or the retention period is below five minutes
  (\<open>3 \<cdot> 10\<^sup>1\<^sup>1\<close> ns); every failure is a configuration error made by \<^verbatim>\<open>fmt.Errorf\<close>, returned
  before the loops are launched; with both minimums met the agent is returned and carries
  the configured values and a logger. \<^verbatim>\<open>newAgent\<close> itself agrees with \<^verbatim>\<open>Start\<close> whenever a logger is
  given.
\<close>

theorem construction_validates:
  "((\<exists>e. Start cfg = Inl e) \<longleftrightarrow>
      sint (PollingInterval cfg) < 1000000000 \<or> sint (RetentionPeriod cfg) < 300000000000) \<and>
   (\<forall>e. Start cfg = Inl e \<longrightarrow> (\<exists>m. e = Errorf m)) \<and>
   (1000000000 \<le> sint (PollingInterval cfg) \<and> 300000000000 \<le> sint (RetentionPeriod cfg) \<longrightarrow>
      (\<exists>a. Start cfg = Inr a \<and> pollingInterval a = PollingInterval cfg \<and>
           requestRetention a = RetentionPeriod cfg \<and> id_agent a = AgentID cfg \<and>
           url a = EmbeddingsURL cfg \<and> apiKey a = APIKey cfg \<and> logger a \<noteq> None)) \<and>
   (Logger cfg \<noteq> None \<longrightarrow> newAgent cfg = Start cfg)"
  by (auto simp: Start_def newAgent_def sint_mins split: option.splits)

theorem construction_validates_witness:
  "Start cfg_ok = Inr agent_A \<and>
   Start (cfg_ok\<lparr>PollingInterval := 999999999\<rparr>) =
     Inl (Errorf ''[embeddings] polling interval must be at least 1s'') \<and>
   Start (cfg_ok\<lparr>RetentionPeriod := 299999999999\<rparr>) =
     Inl (Errorf ''[embeddings] request retention must be at least 5m0s'') \<and>
   (1000000000::int) \<le> sint (PollingInterval cfg_ok) \<and>
   (300000000000::int) \<le> sint (RetentionPeriod cfg_ok)"
  using construction_validates [of cfg_ok]
    construction_validates [of "cfg_ok\<lparr>PollingInterval := 999999999\<rparr>"]
    construction_validates [of "cfg_ok\<lparr>RetentionPeriod := 299999999999\<rparr>"]
  by (simp add: Start_def newAgent_def cfg_ok_def agent_A_def sint_mins default_logger_def)

section \<open>One polling cycle\<close>

lemma run_claimed:
  assumes "claim (id_agent a) (claim_faults env) s = (Inr er, s1)"
  shows "run a env s =
    (case makeEmbeddingsRequest env (endpoint a er) (apiKey a) er of
       (Inl e, fx) \<Rightarrow>
         \<lparr>ret = Some (Wrap ''failed to make embeddings request'' e),
          after = s1, effects = fx\<rparr>
     | (Inr embedresp, fx) \<Rightarrow>
         (case complete (ID er) embedresp (now env) (persist_faults env) s1 of
            (Inl e, s2) \<Rightarrow>
              \<lparr>ret = None, after = s2,
               effects = fx @ [LogError ''Failed to create embeddings response'',
                               Ready (ID er)]\<rparr>
          | (Inr u, s2) \<Rightarrow>
              \<lparr>ret = None, after = s2, effects = fx @ [Ready (ID er)]\<rparr>))"
  using assms by (simp add: run_def)

lemma makeEmbeddingsRequest_calls:
  "[e \<leftarrow> snd (makeEmbeddingsRequest env u key er). \<exists>q. e = HttpPost q] =
     (case marshal env er of
        Inl e \<Rightarrow> []
      | Inr b \<Rightarrow>
          (case new_request env u of
             Some e \<Rightarrow> []
           | None \<Rightarrow> [HttpPost (build_request u key b)]))"
  by (simp add: makeEmbeddingsRequest_def Let_def split: sum.splits option.splits)

lemma run_calls:
  assumes "claim (id_agent a) (claim_faults env) s = (Inr er, s1)"
  shows "[e \<leftarrow> effects (run a env s). \<exists>q. e = HttpPost q] =
         [e \<leftarrow> snd (makeEmbeddingsRequest env (endpoint a er) (apiKey a) er). \<exists>q. e = HttpPost q]"
  by (simp add: run_claimed [OF assms] split: prod.splits sum.splits)

subsection \<open>The endpoint of the call\<close>

text \<open>
  Claim C10. For every claimed request, every outbound call of the cycle goes to the
  request's own \<^verbatim>\<open>ModelAPI\<close> when that field is non-empty and to the agent's configured
  URL otherwise; and when the request can be built (marshalling and
  \<^verbatim>\<open>http.NewRequestWithContext\<close> succeed) the cycle makes exactly one call, to that
  endpoint.
\<close>

theorem endpoint_override:
  assumes "claim (id_agent a) (claim_faults env) s = (Inr er, s1)"
  shows "(\<forall>q. HttpPost q \<in> set (effects (run a env s)) \<longrightarrow>
            req_url q = (if ModelAPI er \<noteq> [] then ModelAPI er else url a)) \<and>
         (\<forall>b. marshal env er = Inr b \<longrightarrow>
            new_request env (if ModelAPI er \<noteq> [] then ModelAPI er else url a) = None \<longrightarrow>
            [e \<leftarrow> effects (run a env s). \<exists>q. e = HttpPost q] =
              [HttpPost (build_request (if ModelAPI er \<noteq> [] then ModelAPI er else url a)
                           (apiKey a) b)])"
proof -
  let ?u = "if ModelAPI er \<noteq> [] then ModelAPI er else url a"
  let ?calls = "[e \<leftarrow> effects (run a env s). \<exists>q. e = HttpPost q]"
  have u: "endpoint a er = ?u"
    by (simp add: endpoint_def Let_def)
  have calls: "?calls =
     (case marshal env er of
        Inl e \<Rightarrow> []
      | Inr b \<Rightarrow>
          (case new_request env ?u of
             Some e \<Rightarrow> []
           | None \<Rightarrow> [HttpPost (build_request ?u (apiKey a) b)]))"
    unfolding run_calls [OF assms] makeEmbeddingsRequest_calls u ..
  have "req_url q = ?u" if "HttpPost q \<in> set (effects (run a env s))" for q
  proof -
    from that have "HttpPost q \<in> set ?calls" by simp
    then show ?thesis
      unfolding calls by (auto simp: build_request_def split: sum.splits option.splits)
  qed
  moreover have "?calls = [HttpPost (build_request ?u (apiKey a) b)]"
    if "marshal env er = Inr b" "new_request env ?u = None" for b
    using that unfolding calls by simp
  ultimately show ?thesis by blast
qed

lemma claim_A_single:
  "claim (id_agent agent_A) (claim_faults env_ok) \<lparr>requests = [r_old], responses = []\<rparr> =
     (Inr r_old, \<lparr>requests = [r_held], responses = []\<rparr>)"
  by (simp add: cycle_defs example_defs)

lemma claim_A_store2:
  "claim (id_agent agent_A) (claim_faults env_ok) store2 =
     (Inr r_new, \<lparr>requests = [r_old, r_new\<lparr>ClaimedBy := Some ''A''\<rparr>], responses = []\<rparr>)"
  using claim_store2 by (simp add: agent_A_def env_ok_def)

theorem endpoint_override_witness:
  "claim (id_agent agent_A) (claim_faults env_ok) store2 =
     (Inr r_new, \<lparr>requests = [r_old, r_new\<lparr>ClaimedBy := Some ''A''\<rparr>], responses = []\<rparr>) \<and>
   ModelAPI r_new = ''http://model'' \<and>
   [e \<leftarrow> effects (run agent_A env_ok store2). \<exists>q. e = HttpPost q] =
     [HttpPost (build_request ''http://model'' ''k'' ''p2'')] \<and>
   claim (id_agent agent_A) (claim_faults env_ok) \<lparr>requests = [r_old], responses = []\<rparr> =
     (Inr r_old, \<lparr>requests = [r_held], responses = []\<rparr>) \<and>
   ModelAPI r_old = [] \<and> url agent_A = ''http://embed'' \<and>
   [e \<leftarrow> effects (run agent_A env_ok \<lparr>requests = [r_old], responses = []\<rparr>). \<exists>q. e = HttpPost q] =
     [HttpPost (build_request ''http://embed'' ''k'' ''p1'')]"
  using endpoint_override [OF claim_A_store2] endpoint_override [OF claim_A_single]
    claim_A_store2 claim_A_single
  by (simp add: example_defs)

subsection \<open>The completion transaction\<close>


lemma complete_cases:
  "complete rid p t f s = (res, s') \<Longrightarrow>
     (res = Inr () \<and>
      s' = s\<lparr>responses := responses s @ [p\<lparr>RespCreatedAt := t\<rparr>],
             requests := map (\<lambda>r. if ID r = rid then r\<lparr>Done := True\<rparr> else r) (requests s)\<rparr>) \<or>
     ((\<exists>e. res = Inl e) \<and> s' = s)"
  by (auto simp: complete_def Transaction_def complete_body_def Create_def Update_done_def
      split: option.splits sum.splits prod.splits)


subsection \<open>A failing executor\<close>





subsection \<open>A failing completion transaction\<close>

lemma update_by_id_one_row:
  assumes "distinct (map ID rs)" and "er \<in> set rs"
  shows "map (\<lambda>r. if ID r = ID er then g r else r) rs = map (\<lambda>r. if r = er then g r else r) rs"
  by (rule map_cong [OF refl]) (simp add: distinct_ID_eq [OF assms(1) _ assms(2)])

lemma newest_map:
  assumes "\<And>x. CreatedAt (g x) = CreatedAt x"
  shows "newest (map g xs) = map_option g (newest xs)"
  by (induction xs) (auto simp: assms split: option.splits)

lemma reclaim_same:
  assumes d: "distinct (map ID rs)"
    and n: "newest (filter (claimable a) rs) = Some er"
    and nd: "\<not> Done er"
  defines "upd \<equiv> (\<lambda>r. if ID r = ID er then r\<lparr>ClaimedBy := Some a\<rparr> else r)"
  shows "newest (filter (claimable a) (map upd rs)) = Some (upd er)"
    and "map (\<lambda>r. if ID r = ID (upd er) then r\<lparr>ClaimedBy := Some a\<rparr> else r) (map upd rs) = map upd rs"
proof -
  from newest_mem [OF n] have mem: "er \<in> set rs" and cl: "claimable a er" by simp_all
  have same: "claimable a (upd r) = claimable a r" if "r \<in> set rs" for r
  proof (cases "ID r = ID er")
    case True
    with distinct_ID_eq [OF d that mem] have "r = er" by simp
    with cl nd show ?thesis by (simp add: upd_def claimable_def)
  next
    case False
    then show ?thesis by (simp add: upd_def)
  qed
  have "filter (claimable a) (map upd rs) = map upd (filter (claimable a \<circ> upd) rs)"
    by (simp add: filter_map)
  also have "filter (claimable a \<circ> upd) rs = filter (claimable a) rs"
    by (rule filter_cong [OF refl]) (simp add: same)
  finally have "newest (filter (claimable a) (map upd rs)) =
      newest (map upd (filter (claimable a) rs))" by simp
  also have "\<dots> = map_option upd (newest (filter (claimable a) rs))"
    by (rule newest_map) (simp add: upd_def)
  finally show "newest (filter (claimable a) (map upd rs)) = Some (upd er)"
    by (simp add: n)
  show "map (\<lambda>r. if ID r = ID (upd er) then r\<lparr>ClaimedBy := Some a\<rparr> else r) (map upd rs) = map upd rs"
    by (simp add: upd_def)
qed

text \<open>
  Claim C2. The completion transaction is atomic: whatever the store does during it,
  afterwards either the response row is inserted and the request's completion flag is
  set, or the store is exactly as before. When it fails in a cycle of \<^verbatim>\<open>run\<close> (ids unique,
  the claimed request not done), the cycle logs the failure and returns \<^verbatim>\<open>nil\<close>, the store
  is the one the claim transaction left: the request's row has its claim-owner set to the
  executing agent and is not done, and the next claim transaction of the same owner on
  that store returns this very row again and changes nothing, so the request is
  processed again.
\<close>

theorem complete_atomic:
  "(\<forall>rid p t f s0 res s'. complete rid p t f s0 = (res, s') \<longrightarrow>
      (res = Inr () \<and>
       s' = s0\<lparr>responses := responses s0 @ [p\<lparr>RespCreatedAt := t\<rparr>],
               requests := map (\<lambda>r. if ID r = rid then r\<lparr>Done := True\<rparr> else r) (requests s0)\<rparr>) \<or>
      ((\<exists>e. res = Inl e) \<and> s' = s0)) \<and>
   (distinct (map ID (requests s)) \<longrightarrow>
    claim (id_agent a) (claim_faults env) s = (Inr er, s1) \<longrightarrow> \<not> Done er \<longrightarrow>
    makeEmbeddingsRequest env (endpoint a er) (apiKey a) er = (Inr p, fx) \<longrightarrow>
    complete (ID er) p (now env) (persist_faults env) s1 = (Inl e, s2) \<longrightarrow>
      run a env s =
        \<lparr>ret = None, after = s1,
         effects = fx @ [LogError ''Failed to create embeddings response'', Ready (ID er)]\<rparr> \<and>
      responses s1 = responses s \<and>
      requests s1 =
        map (\<lambda>r. if r = er then r\<lparr>ClaimedBy := Some (id_agent a)\<rparr> else r) (requests s) \<and>
      er\<lparr>ClaimedBy := Some (id_agent a)\<rparr> \<in> set (requests s1) \<and>
      claim (id_agent a) no_faults s1 = (Inr (er\<lparr>ClaimedBy := Some (id_agent a)\<rparr>), s1))"
proof (intro conjI allI impI)
  fix rid p t f s0 res s'
  assume "complete rid p t f s0 = (res, s')"
  then show "(res = Inr () \<and>
       s' = s0\<lparr>responses := responses s0 @ [p\<lparr>RespCreatedAt := t\<rparr>],
               requests := map (\<lambda>r. if ID r = rid then r\<lparr>Done := True\<rparr> else r) (requests s0)\<rparr>) \<or>
      ((\<exists>e. res = Inl e) \<and> s' = s0)"
    by (rule complete_cases)
next
  let ?a = "id_agent a"
  let ?upd = "\<lambda>r. if ID r = ID er then r\<lparr>ClaimedBy := Some ?a\<rparr> else r"
  assume d: "distinct (map ID (requests s))"
    and c: "claim ?a (claim_faults env) s = (Inr er, s1)"
    and nd: "\<not> Done er"
    and mk: "makeEmbeddingsRequest env (endpoint a er) (apiKey a) er = (Inr p, fx)"
    and co: "complete (ID er) p (now env) (persist_faults env) s1 = (Inl e, s2)"
  from complete_cases [OF co] have s2: "s2 = s1" by simp
  show "run a env s =
        \<lparr>ret = None, after = s1,
         effects = fx @ [LogError ''Failed to create embeddings response'', Ready (ID er)]\<rparr>"
    by (simp add: run_claimed [OF c] mk co s2)
  from c have n: "newest (filter (claimable ?a) (requests s)) = Some er"
    and s1: "s1 = s\<lparr>requests := map ?upd (requests s)\<rparr>"
    by (simp_all add: claim_Inr_iff)
  from newest_mem [OF n] have mem: "er \<in> set (requests s)" by simp
  show "responses s1 = responses s" by (simp add: s1)
  show r1: "requests s1 =
        map (\<lambda>r. if r = er then r\<lparr>ClaimedBy := Some ?a\<rparr> else r) (requests s)"
    by (simp add: s1 update_by_id_one_row [OF d mem])
  show "er\<lparr>ClaimedBy := Some ?a\<rparr> \<in> set (requests s1)"
    unfolding r1 using mem by (auto simp: image_iff intro!: bexI [of _ er])
  from reclaim_same [OF d n nd]
  have "newest (filter (claimable ?a) (requests s1)) = Some (er\<lparr>ClaimedBy := Some ?a\<rparr>)"
    and "map (\<lambda>r. if ID r = ID er then r\<lparr>ClaimedBy := Some ?a\<rparr> else r) (requests s1) = requests s1"
    by (simp_all add: s1)
  then show "claim ?a no_faults s1 = (Inr (er\<lparr>ClaimedBy := Some ?a\<rparr>), s1)"
    by (simp add: claim_Inr_iff no_faults_def)
qed

lemma claim_A_commit_fails:
  "claim (id_agent agent_A) (claim_faults env_commit_fails) store2 = (Inr r_new, store_claimed)"
  using claim_store2 by (simp add: agent_A_def env_ok_def env_commit_fails_def store_claimed_def)

lemma make_commit_fails:
  "makeEmbeddingsRequest env_commit_fails (endpoint agent_A r_new) (apiKey agent_A) r_new =
     (Inr resp_ok, [HttpPost (build_request ''http://model'' ''k'' ''p2'')])"
  by (simp add: cycle_defs example_defs resp_ok_def)

lemma complete_commit_fails:
  "complete (ID r_new) resp_ok (now env_commit_fails) (persist_faults env_commit_fails)
     store_claimed = (Inl (StoreFault ''commit failed''), store_claimed)"
  by (simp add: cycle_defs example_defs resp_ok_def store_claimed_def)

theorem complete_atomic_witness:
  "distinct (map ID (requests store2)) \<and>
   claim (id_agent agent_A) (claim_faults env_commit_fails) store2 = (Inr r_new, store_claimed) \<and>
   \<not> Done r_new \<and>
   makeEmbeddingsRequest env_commit_fails (endpoint agent_A r_new) (apiKey agent_A) r_new =
     (Inr resp_ok, [HttpPost (build_request ''http://model'' ''k'' ''p2'')]) \<and>
   complete (ID r_new) resp_ok (now env_commit_fails) (persist_faults env_commit_fails)
     store_claimed = (Inl (StoreFault ''commit failed''), store_claimed) \<and>
   run agent_A env_commit_fails store2 =
     \<lparr>ret = None, after = store_claimed,
      effects = [HttpPost (build_request ''http://model'' ''k'' ''p2''),
                 LogError ''Failed to create embeddings response'', Ready ''r2'']\<rparr> \<and>
   claim ''A'' no_faults store_claimed =
     (Inr (r_new\<lparr>ClaimedBy := Some ''A''\<rparr>), store_claimed) \<and>
   complete ''r2'' resp_ok 30 no_faults store_claimed =
     (Inr (), \<lparr>requests = [r_old, r_new\<lparr>ClaimedBy := Some ''A'', Done := True\<rparr>],
               responses = [resp_ok\<lparr>RespCreatedAt := 30\<rparr>]\<rparr>)"
proof -
  have d: "distinct (map ID (requests store2))" and nd: "\<not> Done r_new"
    by (simp_all add: example_defs)
  have ok: "complete ''r2'' resp_ok 30 no_faults store_claimed =
     (Inr (), \<lparr>requests = [r_old, r_new\<lparr>ClaimedBy := Some ''A'', Done := True\<rparr>],
               responses = [resp_ok\<lparr>RespCreatedAt := 30\<rparr>]\<rparr>)"
    by (simp add: cycle_defs example_defs resp_ok_def store_claimed_def)
  show ?thesis
    using complete_atomic [where s = store2 and a = agent_A and env = env_commit_fails
        and er = r_new and ?s1.0 = store_claimed and p = resp_ok
        and fx = "[HttpPost (build_request ''http://model'' ''k'' ''p2'')]"
        and e = "StoreFault ''commit failed''" and ?s2.0 = store_claimed]
      d nd claim_A_commit_fails make_commit_fails complete_commit_fails ok
    by (simp add: agent_A_def r_new_def)
qed

section \<open>The cleanup job\<close>

lemma sint_neg_Duration:
  fixes x :: Duration
  assumes "0 \<le> sint x"
  shows "sint (- x) = - sint x"
proof -
  have "sint x < 2 ^ 63" using sint_lt [of x] by simp
  with assms have "signed_take_bit 63 (- sint x) = - sint x"
    by (intro signed_take_bit_int_eq_self) auto
  then show ?thesis by (simp add: sint_word_ariths)
qed

lemma sint_go_div_2:
  fixes x :: Duration
  assumes "0 \<le> sint x"
  shows "sint (go_div x 2) = sint x div 2"
proof -
  have lt: "sint x < 2 ^ 63" using sint_lt [of x] by simp
  have "sint x sdiv 2 = sint x div 2"
    using assms by (simp add: signed_divide_int_def sgn_if)
  moreover have "signed_take_bit 63 (sint x div 2) = sint x div 2"
    using assms lt by (intro signed_take_bit_int_eq_self) auto
  ultimately show ?thesis
    by (simp add: go_div_def sint_sbintrunc')
qed

lemma Start_Inr:
  assumes "Start cfg = Inr a"
  shows "requestRetention a = RetentionPeriod cfg" "pollingInterval a = PollingInterval cfg"
    "300000000000 \<le> sint (RetentionPeriod cfg)" "1000000000 \<le> sint (PollingInterval cfg)"
  using assms
  by (auto simp: Start_def newAgent_def sint_mins split: option.splits if_splits)

lemma cleanup_iteration_running:
  "running (cleanup_iteration a k t s) = (\<not> cancelled k)"
  by (simp add: cleanup_iteration_def Let_def split: prod.splits)

lemma cleanup_iteration_store:
  "store_of (cleanup_iteration a k t s) =
     snd (DeleteExpired (expiration a (clock k)) jobObjects (delete_failure k) s)"
  by (simp add: cleanup_iteration_def Let_def split: prod.splits)

lemma cleanup_iteration_deletes:
  "[x \<leftarrow> trace (cleanup_iteration a k t s). is_delete_call x] =
     [DeleteExpiredCall (expiration a (clock k)) jobObjects]"
  by (simp add: cleanup_iteration_def Let_def stop_and_drain_def
      split: prod.splits option.splits)

lemma cleanup_iteration_arms:
  "[x \<leftarrow> trace (cleanup_iteration a k t s). is_timer_arm x] =
     (if cancelled k then [] else [TimerReset (cleanupInterval a)])"
  by (simp add: cleanup_iteration_def Let_def stop_and_drain_def
      split: prod.splits option.splits)

lemma cleanup_iteration_logs:
  "LogError ''failed to delete expired embeddings requests/responses''
     \<in> set (trace (cleanup_iteration a k t s)) \<longleftrightarrow> delete_failure k \<noteq> None"
  by (auto simp: cleanup_iteration_def Let_def stop_and_drain_def DeleteExpired_def
      split: prod.splits option.splits if_splits)

lemma cleanup_loop_running:
  "running (cleanup_loop a ks t s) = (\<forall>k\<in>set ks. \<not> cancelled k)"
  by (induction ks arbitrary: t s) (auto simp: Let_def cleanup_iteration_running)

lemma cleanup_loop_deletes:
  "[x \<leftarrow> trace (cleanup_loop a ks t s). is_delete_call x] =
     map (\<lambda>k. DeleteExpiredCall (expiration a (clock k)) jobObjects) (performed ks)"
  by (induction ks arbitrary: t s)
    (simp_all add: Let_def cleanup_iteration_running cleanup_iteration_deletes)

lemma cleanup_loop_arms:
  "[x \<leftarrow> trace (cleanup_loop a ks t s). is_timer_arm x] =
     replicate (length [k \<leftarrow> performed ks. \<not> cancelled k]) (TimerReset (cleanupInterval a))"
  by (induction ks arbitrary: t s)
    (simp_all add: Let_def cleanup_iteration_running cleanup_iteration_arms)

text \<open>
  Claim C8. For an agent that \<^verbatim>\<open>Start\<close> constructed: the cleanup job arms its own timer,
  first with \<^verbatim>\<open>NewTimer\<close> and again after every iteration that was not cancelled, always
  with half the retention period (the integer half, in nanoseconds); every iteration up
  to cancellation calls \<^verbatim>\<open>DeleteExpired\<close> once, with the cutoff "clock minus retention
  period" and exactly the request kind and the response kind, and the store it leaves is
  the one \<^verbatim>\<open>DeleteExpired\<close> returned; a failed deletion is logged, and whether the loop goes
  on depends on the cancellation signal alone, not on the outcome of the deletion.
\<close>

theorem cleanup_job_schedule:
  assumes "Start cfg = Inr a"
  shows "sint (cleanupInterval a) = sint (RetentionPeriod cfg) div 2 \<and>
     [x \<leftarrow> trace (cleanup_job a ks s). is_timer_arm x] =
       NewTimer (cleanupInterval a) #
       replicate (length [k \<leftarrow> performed ks. \<not> cancelled k]) (TimerReset (cleanupInterval a)) \<and>
     [x \<leftarrow> trace (cleanup_job a ks s). is_delete_call x] =
       map (\<lambda>k. DeleteExpiredCall (clock k - sint (RetentionPeriod cfg))
                  [CreateEmbeddingRequest, CreateEmbeddingResponse]) (performed ks) \<and>
     running (cleanup_job a ks s) = (\<forall>k\<in>set ks. \<not> cancelled k) \<and>
     (\<forall>k t s'.
        running (cleanup_iteration a k t s') = (\<not> cancelled k) \<and>
        (LogError ''failed to delete expired embeddings requests/responses''
           \<in> set (trace (cleanup_iteration a k t s')) \<longleftrightarrow> delete_failure k \<noteq> None) \<and>
        store_of (cleanup_iteration a k t s') =
          snd (DeleteExpired (clock k - sint (RetentionPeriod cfg))
                 [CreateEmbeddingRequest, CreateEmbeddingResponse] (delete_failure k) s'))"
proof -
  note st = Start_Inr [OF assms]
  have pos: "0 \<le> sint (requestRetention a)" using st by simp
  have half: "sint (cleanupInterval a) = sint (RetentionPeriod cfg) div 2"
    using sint_go_div_2 [OF pos] st by (simp add: cleanupInterval_def)
  have cut: "expiration a c = c - sint (RetentionPeriod cfg)" for c
    using sint_neg_Duration [OF pos] st by (simp add: expiration_def)
  show ?thesis
    by (simp add: half cleanup_job_def Let_def cleanup_loop_arms cleanup_loop_deletes
        cleanup_loop_running cleanup_iteration_running cleanup_iteration_logs
        cleanup_iteration_store cut jobObjects_def)
qed

lemma Start_cfg_ok: "Start cfg_ok = Inr agent_A"
  by (simp add: Start_def newAgent_def cfg_ok_def agent_A_def sint_mins default_logger_def)

lemma cleanup_example:
  "cleanup_job agent_A [sweep, sweep_fails, sweep_last, sweep] store2 =
     \<lparr>running = False,
      timer_of = \<lparr>active = False, pending = False, period = 300000000000\<rparr>,
      store_of = \<lparr>requests = [], responses = []\<rparr>,
      trace =
        [NewTimer 300000000000,
         DeleteExpiredCall 15 [CreateEmbeddingRequest, CreateEmbeddingResponse],
         Wait TimerC, TimerReset 300000000000,
         DeleteExpiredCall 300000000015 [CreateEmbeddingRequest, CreateEmbeddingResponse],
         LogError ''failed to delete expired embeddings requests/responses'',
         Wait TimerC, TimerReset 300000000000,
         DeleteExpiredCall 600000000015 [CreateEmbeddingRequest, CreateEmbeddingResponse],
         Wait CtxDone, TimerStop False, TimerDrain]\<rparr>"
  by (simp add: loop_defs example_defs sweep_def sweep_fails_def sweep_last_def)

theorem cleanup_job_schedule_witness:
  "Start cfg_ok = Inr agent_A \<and>
   sint (cleanupInterval agent_A) = 300000000000 \<and>
   performed [sweep, sweep_fails, sweep_last, sweep] = [sweep, sweep_fails, sweep_last] \<and>
   trace (cleanup_job agent_A [sweep, sweep_fails, sweep_last, sweep] store2) =
        [NewTimer 300000000000,
         DeleteExpiredCall 15 [CreateEmbeddingRequest, CreateEmbeddingResponse],
         Wait TimerC, TimerReset 300000000000,
         DeleteExpiredCall 300000000015 [CreateEmbeddingRequest, CreateEmbeddingResponse],
         LogError ''failed to delete expired embeddings requests/responses'',
         Wait TimerC, TimerReset 300000000000,
         DeleteExpiredCall 600000000015 [CreateEmbeddingRequest, CreateEmbeddingResponse],
         Wait CtxDone, TimerStop False, TimerDrain] \<and>
   \<not> running (cleanup_job agent_A [sweep, sweep_fails, sweep_last, sweep] store2)"
  using cleanup_job_schedule [OF Start_cfg_ok, of "[sweep, sweep_fails, sweep_last, sweep]" store2]
    Start_cfg_ok cleanup_example
  by (simp add: cfg_ok_def sweep_def sweep_fails_def sweep_last_def)

section \<open>The embeddings runner\<close>

lemma stop_and_drain_timer:
  "fst (stop_and_drain t) = \<lparr>active = False, pending = (active t \<and> pending t), period = period t\<rparr>"
  by (cases t) (simp add: stop_and_drain_def timer_stop_def timer_drain_def)

lemma stop_and_drain_trace:
  "\<forall>x\<in>set (snd (stop_and_drain t)). \<not> is_wait x \<and> \<not> is_cycle x"
  by (simp add: stop_and_drain_def timer_stop_def)

lemma run_effects_plain: "\<forall>x\<in>set (effects (run a env s)). \<not> is_wait x \<and> \<not> is_cycle x"
  by (auto simp: run_def makeEmbeddingsRequest_def Let_def
      split: prod.splits sum.splits option.splits)

lemma stop_and_drain_waits [simp]: "[x \<leftarrow> snd (stop_and_drain t). is_wait x] = []"
  by (simp add: stop_and_drain_def timer_stop_def)

lemma stop_and_drain_cycles [simp]: "x \<in> set (snd (stop_and_drain t)) \<Longrightarrow> \<not> is_cycle x"
  using stop_and_drain_trace by blast

lemma run_effects_waits [simp]: "[x \<leftarrow> effects (run a env s). is_wait x] = []"
  using run_effects_plain [of a env s] by (simp add: filter_empty_conv)

lemma run_effects_cycles [simp]: "x \<in> set (effects (run a env s)) \<Longrightarrow> \<not> is_cycle x"
  using run_effects_plain by blast

lemma poll_iteration_success:
  assumes "ret (run a (cycle_env k) s) = None"
  shows "running (poll_iteration a k t s)"
    and "[x \<leftarrow> trace (poll_iteration a k t s). is_wait x] = []"
  using assms by (simp_all add: poll_iteration_def Let_def split_beta)

lemma poll_iteration_error:
  assumes "ret (run a (cycle_env k) s) \<noteq> None"
  shows "running (poll_iteration a k t s) = (wake k \<noteq> CtxDone)"
    and "[x \<leftarrow> trace (poll_iteration a k t s). is_wait x] = [Wait (wake k)]"
proof -
  from assms obtain e where e: "ret (run a (cycle_env k) s) = Some e" by auto
  show "running (poll_iteration a k t s) = (wake k \<noteq> CtxDone)"
    by (cases "wake k") (simp_all add: poll_iteration_def Let_def e split_beta)
  show "[x \<leftarrow> trace (poll_iteration a k t s). is_wait x] = [Wait (wake k)]"
    by (cases "wake k") (simp_all add: poll_iteration_def Let_def e split_beta)
qed

lemma poll_iteration_timer:
  assumes "\<not> pending t"
  shows "running (poll_iteration a k t s) \<Longrightarrow>
           timer_of (poll_iteration a k t s) = timer_new (pollingInterval a)"
    and "\<not> running (poll_iteration a k t s) \<Longrightarrow>
           \<not> active (timer_of (poll_iteration a k t s)) \<and>
           \<not> pending (timer_of (poll_iteration a k t s))"
  using assms
  by (auto simp: poll_iteration_def Let_def split_beta stop_and_drain_timer
      timer_reset_def timer_new_def timer_expire_def timer_receive_def
      split: option.splits wake.splits if_splits)

lemma poll_iteration_resets:
  "running (poll_iteration a k t s) \<Longrightarrow>
     \<exists>pre. trace (poll_iteration a k t s) = pre @ [TimerReset (pollingInterval a)]"
  by (cases "ret (run a (cycle_env k) s)"; cases "wake k")
    (auto simp: poll_iteration_def Let_def split_beta
      intro: exI [of _ "_ # _"])

lemma poll_iteration_shape:
  "\<exists>mid. trace (poll_iteration a k t s) = RunCycle (ret (run a (cycle_env k) s)) # mid \<and>
     (\<forall>x\<in>set mid. \<not> is_cycle x) \<and>
     (ret (run a (cycle_env k) s) \<noteq> None \<longrightarrow> (\<exists>x\<in>set mid. is_wait x))"
  by (cases "ret (run a (cycle_env k) s)"; cases "wake k")
    (auto simp: poll_iteration_def Let_def split_beta)

lemma waits_after_errors_plain:
  assumes "\<forall>x\<in>set xs. \<not> is_cycle x"
  shows "waits_after_errors owed (xs @ ys) =
         waits_after_errors (owed \<and> \<not> (\<exists>x\<in>set xs. is_wait x)) ys"
  using assms
proof (induction xs arbitrary: owed)
  case Nil
  then show ?case by simp
next
  case (Cons x xs)
  then show ?case by (cases x) auto
qed

lemma waits_after_errors_iteration:
  "waits_after_errors False (trace (poll_iteration a k t s) @ rest) =
   waits_after_errors False rest"
proof -
  obtain mid where m: "trace (poll_iteration a k t s) = RunCycle (ret (run a (cycle_env k) s)) # mid"
    "\<forall>x\<in>set mid. \<not> is_cycle x"
    "ret (run a (cycle_env k) s) \<noteq> None \<longrightarrow> (\<exists>x\<in>set mid. is_wait x)"
    using poll_iteration_shape by blast
  show ?thesis
  proof (cases "ret (run a (cycle_env k) s)")
    case None
    then show ?thesis by (simp add: m(1) waits_after_errors_plain [OF m(2)])
  next
    case (Some e)
    with m(3) have "\<exists>x\<in>set mid. is_wait x" by simp
    with Some show ?thesis by (simp add: m(1) waits_after_errors_plain [OF m(2)])
  qed
qed

lemma poll_loop_waits:
  "waits_after_errors False (trace (poll_loop a ks t s))"
proof (induction ks arbitrary: t s)
  case Nil
  then show ?case by simp
next
  case (Cons k ks)
  show ?case
  proof (cases "running (poll_iteration a k t s)")
    case True
    then show ?thesis
      using Cons.IH by (simp add: Let_def waits_after_errors_iteration)
  next
    case False
    then show ?thesis
      using waits_after_errors_iteration [of a k t s "[]"] by (simp add: Let_def)
  qed
qed

lemma poll_loop_timer:
  "(running (poll_loop a ks (timer_new (pollingInterval a)) s) \<longrightarrow>
      timer_of (poll_loop a ks (timer_new (pollingInterval a)) s) = timer_new (pollingInterval a)) \<and>
   (\<not> running (poll_loop a ks (timer_new (pollingInterval a)) s) \<longrightarrow>
      \<not> active (timer_of (poll_loop a ks (timer_new (pollingInterval a)) s)) \<and>
      \<not> pending (timer_of (poll_loop a ks (timer_new (pollingInterval a)) s)))"
proof (induction ks arbitrary: s)
  case Nil
  then show ?case by simp
next
  case (Cons k ks)
  have np: "\<not> pending (timer_new (pollingInterval a))" by (simp add: timer_new_def)
  show ?case
  proof (cases "running (poll_iteration a k (timer_new (pollingInterval a)) s)")
    case True
    with poll_iteration_timer(1) [OF np True] Cons.IH show ?thesis
      by (simp add: Let_def)
  next
    case False
    with poll_iteration_timer(2) [OF np False] show ?thesis
      by (simp add: Let_def)
  qed
qed

text \<open>
  Claim C9, amended. After a cycle that returned an error (none-available included) the
  loop waits in its select, on the timer, the trigger or cancellation, and every call of
  \<^verbatim>\<open>run\<close> that follows such a cycle comes after that wait; after a successful cycle it
  does not wait. Whenever the loop goes on it has stopped and drained the timer and, as
  the last step of the iteration, reset it to the full polling interval, so each
  iteration starts with a freshly armed timer and an empty channel. When the select takes
  the cancellation signal the loop terminates, with the timer stopped and its channel
  drained.
\<close>

theorem poll_loop_waits_after_errors:
  "waits_after_errors False (trace (poll_job a ks s)) \<and>
   (running (poll_job a ks s) \<longrightarrow> timer_of (poll_job a ks s) = timer_new (pollingInterval a)) \<and>
   (\<not> running (poll_job a ks s) \<longrightarrow>
      \<not> active (timer_of (poll_job a ks s)) \<and> \<not> pending (timer_of (poll_job a ks s))) \<and>
   (\<forall>k s' i. i = poll_iteration a k (timer_new (pollingInterval a)) s' \<longrightarrow>
      (ret (run a (cycle_env k) s') = None \<longrightarrow>
         running i \<and> [x \<leftarrow> trace i. is_wait x] = []) \<and>
      (ret (run a (cycle_env k) s') \<noteq> None \<longrightarrow>
         [x \<leftarrow> trace i. is_wait x] = [Wait (wake k)] \<and> running i = (wake k \<noteq> CtxDone)) \<and>
      (running i \<longrightarrow> (\<exists>pre. trace i = pre @ [TimerReset (pollingInterval a)])))"
proof (intro conjI allI impI)
  show "waits_after_errors False (trace (poll_job a ks s))"
    using poll_loop_waits [of a ks "timer_new (pollingInterval a)" s]
    by (simp add: poll_job_def Let_def)
  show "timer_of (poll_job a ks s) = timer_new (pollingInterval a)" if "running (poll_job a ks s)"
    using that poll_loop_timer [of a ks s] by (simp add: poll_job_def Let_def)
  show "\<not> active (timer_of (poll_job a ks s))" "\<not> pending (timer_of (poll_job a ks s))"
    if "\<not> running (poll_job a ks s)"
    using that poll_loop_timer [of a ks s] by (simp_all add: poll_job_def Let_def)
next
  fix k s' i
  assume i: "i = poll_iteration a k (timer_new (pollingInterval a)) s'"
  { assume "ret (run a (cycle_env k) s') = None"
    then show "running i" "[x \<leftarrow> trace i. is_wait x] = []"
      unfolding i by (rule poll_iteration_success)+ }
  { assume "ret (run a (cycle_env k) s') \<noteq> None"
    then show "[x \<leftarrow> trace i. is_wait x] = [Wait (wake k)]" "running i = (wake k \<noteq> CtxDone)"
      unfolding i by (rule poll_iteration_error)+ }
  { assume "running i"
    then show "\<exists>pre. trace i = pre @ [TimerReset (pollingInterval a)]"
      unfolding i by (rule poll_iteration_resets) }
qed

lemma poll_example:
  "trace (poll_job agent_A [tick_ok, tick_ok, tick_ok, tick_cancel] store2) =
     [NewTimer 1000000000,
      RunCycle None, HttpPost (build_request ''http://model'' ''k'' ''p2''), Ready ''r2'',
      TimerStop True, TimerReset 1000000000,
      RunCycle None, HttpPost (build_request ''http://embed'' ''k'' ''p1''), Ready ''r1'',
      TimerStop True, TimerReset 1000000000,
      RunCycle (Some ErrRecordNotFound), Wait TimerC, TimerStop False, TimerDrain,
      TimerReset 1000000000,
      RunCycle (Some ErrRecordNotFound), Wait CtxDone, TimerStop False, TimerDrain]"
  by (simp add: loop_defs cycle_defs example_defs tick_ok_def tick_cancel_def)

text \<open>
  Claim C9 says that after every cycle, a successful one included, the loop waits on the
  timer or on the trigger before it attempts the next claim. In the code the select is
  inside \<^verbatim>\<open>if err != nil\<close>. With two requests queued and nothing failing, the second call
  of \<^verbatim>\<open>run\<close> follows the first with no wait in between.
\<close>

theorem idle_after_every_cycle_counterexample:
  "\<not> waits_between_cycles True (trace (poll_job agent_A [tick_ok, tick_ok] store2))"
  by (simp add: loop_defs cycle_defs example_defs tick_ok_def)

lemma poll_iteration_ok_example:
  "poll_iteration agent_A tick_ok (timer_new (pollingInterval agent_A)) store2 =
     \<lparr>running = True, timer_of = timer_new 1000000000,
      store_of = \<lparr>requests = [r_old, r_new\<lparr>ClaimedBy := Some ''A'', Done := True\<rparr>],
                  responses = [resp_ok\<lparr>RespCreatedAt := 30\<rparr>]\<rparr>,
      trace = [RunCycle None, HttpPost (build_request ''http://model'' ''k'' ''p2''),
               Ready ''r2'', TimerStop True, TimerReset 1000000000]\<rparr>"
  by (simp add: loop_defs cycle_defs example_defs tick_ok_def resp_ok_def)

lemma poll_iteration_cancel_example:
  "poll_iteration agent_A tick_cancel (timer_new (pollingInterval agent_A))
       \<lparr>requests = [], responses = []\<rparr> =
     \<lparr>running = False, timer_of = \<lparr>active = False, pending = False, period = 1000000000\<rparr>,
      store_of = \<lparr>requests = [], responses = []\<rparr>,
      trace = [RunCycle (Some ErrRecordNotFound), Wait CtxDone, TimerStop False, TimerDrain]\<rparr>"
  by (simp add: loop_defs cycle_defs example_defs tick_cancel_def)

theorem poll_loop_waits_after_errors_witness:
  "ret (run agent_A (cycle_env tick_ok) store2) = None \<and>
   poll_iteration agent_A tick_ok (timer_new (pollingInterval agent_A)) store2 =
     \<lparr>running = True, timer_of = timer_new 1000000000,
      store_of = \<lparr>requests = [r_old, r_new\<lparr>ClaimedBy := Some ''A'', Done := True\<rparr>],
                  responses = [resp_ok\<lparr>RespCreatedAt := 30\<rparr>]\<rparr>,
      trace = [RunCycle None, HttpPost (build_request ''http://model'' ''k'' ''p2''),
               Ready ''r2'', TimerStop True, TimerReset 1000000000]\<rparr> \<and>
   ret (run agent_A (cycle_env tick_cancel) \<lparr>requests = [], responses = []\<rparr>) =
     Some ErrRecordNotFound \<and>
   poll_iteration agent_A tick_cancel (timer_new (pollingInterval agent_A))
       \<lparr>requests = [], responses = []\<rparr> =
     \<lparr>running = False, timer_of = \<lparr>active = False, pending = False, period = 1000000000\<rparr>,
      store_of = \<lparr>requests = [], responses = []\<rparr>,
      trace = [RunCycle (Some ErrRecordNotFound), Wait CtxDone, TimerStop False, TimerDrain]\<rparr> \<and>
   waits_after_errors False
     (trace (poll_job agent_A [tick_ok, tick_ok, tick_ok, tick_cancel] store2)) \<and>
   \<not> running (poll_job agent_A [tick_ok, tick_ok, tick_ok, tick_cancel] store2) \<and>
   \<not> pending (timer_of (poll_job agent_A [tick_ok, tick_ok, tick_ok, tick_cancel] store2))"
proof -
  have r1: "ret (run agent_A (cycle_env tick_ok) store2) = None"
    by (simp add: cycle_defs example_defs tick_ok_def)
  have r2: "ret (run agent_A (cycle_env tick_cancel) \<lparr>requests = [], responses = []\<rparr>) =
     Some ErrRecordNotFound"
    by (simp add: cycle_defs example_defs tick_cancel_def)
  have nr: "\<not> running (poll_job agent_A [tick_ok, tick_ok, tick_ok, tick_cancel] store2)"
    by (simp add: loop_defs cycle_defs example_defs tick_ok_def tick_cancel_def)
  show ?thesis
    using poll_loop_waits_after_errors
        [of agent_A "[tick_ok, tick_ok, tick_ok, tick_cancel]" store2]
      r1 r2 nr poll_iteration_ok_example poll_iteration_cancel_example
    by simp
qed

section \<open>The invariant of the reachable stores\<close>









lemma cleanup_iteration_reachable:
  assumes "reachable s0 s"
  shows "reachable s0 (store_of (cleanup_iteration a k t s))"
proof -
  obtain e s' where d: "DeleteExpired (expiration a (clock k)) jobObjects (delete_failure k) s = (e, s')"
    by (cases "DeleteExpired (expiration a (clock k)) jobObjects (delete_failure k) s")
  from reachable.cleaned [OF assms d] show ?thesis
    by (simp add: cleanup_iteration_store d)
qed





end
